theory Spec2Isabelle
  imports Main "HOL-Library.Word" "HOL-Library.Sublist" "HOL-Library.AList"
begin

section \<open>Paths\<close>

text \<open>
  A \<open>pathlib.Path\<close> is modelled by its \<open>parts\<close>: the list of its components, the
  first one being \<open>''/''\<close> for an absolute POSIX path, and the empty list for the
  path \<open>.\<close>. The operations below are the pathlib operations that
  \<open>infra/__main__.py\<close> calls: \<open>is_absolute\<close>, \<open>parent\<close>, \<open>name\<close>,
  \<open>as_posix\<close> (which is also \<open>str\<close> on POSIX) and \<open>relative_to\<close>, which
  raises \<open>ValueError\<close> for a path that does not start with the other one.
\<close>

type_synonym path = "string list"

datatype error = OSError string | ValueError string | Exception string

definition is_absolute :: "path \<Rightarrow> bool" where
  "is_absolute p = (case p of [] \<Rightarrow> False | r # _ \<Rightarrow> r = ''/'')"

definition parent :: "path \<Rightarrow> path" where
  "parent p = (if p = [''/''] then p else butlast p)"

definition name_of :: "path \<Rightarrow> string" where
  "name_of p = (if p = [] \<or> p = [''/''] then [] else last p)"

fun join_parts :: "string list \<Rightarrow> string" where
  "join_parts [] = []"
| "join_parts [x] = x"
| "join_parts (x # y # ys) = x @ CHR ''/'' # join_parts (y # ys)"

definition as_posix :: "path \<Rightarrow> string" where
  "as_posix p =
     (case p of
        [] \<Rightarrow> ''.''
      | r # ns \<Rightarrow> if r = ''/'' then CHR ''/'' # join_parts ns else join_parts p)"

definition relative_to :: "path \<Rightarrow> path \<Rightarrow> error + path" where
  "relative_to p other =
     (if prefix other p then Inr (drop (length other) p)
      else Inl (ValueError (as_posix p @ '' is not in the subpath of '' @ as_posix other)))"



section \<open>The file system, zip archives and the provisioning engine\<close>

text \<open>
  The content of a file is a sequence of bytes, except that a zip archive is kept as the
  table of its members, in the order they were written: \<open>zipfile.ZipFile.write\<close>
  stores, for each member, the archive name, the modification time and the mode of the
  file it read (\<open>ZipInfo.from_file\<close> takes them from \<open>st_mtime\<close> and
  \<open>st_mode\<close>) and the file's data. A zip file's bytes determine this table, so two
  archives with different tables are different files.
\<close>

datatype content = Bytes "8 word list" | Archive "member list"
  and member = Member (arcname: string) (date_time: nat) (external_attr: nat) (data: content)

datatype node = Dir | File (st_mtime: nat) (st_mode: nat) (content: content)

text \<open>
  The file system is an association list from paths to nodes; its order is the order
  in which a directory walk enumerates the entries. Nodes are directories and regular
  files with their modification time, mode and content; symbolic links are not modelled.
\<close>

type_synonym filesystem = "(path \<times> node) list"

datatype pulumi_output = Output string string

datatype ApplicationSourceResourcesArgs =
  ApplicationSourceResourcesArgs (resource_label: string) (replicas: int) (session_affinity: bool)

datatype resource =
    ExecutionEnvironment (resource_name: string) (programming_language: string)
      (use_cases: "string list") (docker_context_path: string) (description: string)
  | ApplicationSource (resource_name: string) (name: string) (files: "(string \<times> string) list")
      (base_environment_id: pulumi_output) (base_environment_version_id: pulumi_output)
      (resources: ApplicationSourceResourcesArgs)
  | CustomApplication (resource_name: string) (name: string) (source_version_id: pulumi_output)
      (allow_auto_stopping: bool)

text \<open>The state the script acts on: the file system, the resources registered with the
  provisioning engine and the stack outputs exported, both in program order.\<close>

record state =
  fs :: filesystem
  registered :: "resource list"
  stack_outputs :: "(string \<times> pulumi_output) list"

text \<open>
  The library calls that may raise: opening, writing a member to and closing the zip
  archive, walking a directory (\<open>rglob\<close>, \<open>glob\<close>), opening, reading and closing
  a file, constructing a resource (named by its \<open>resource_name\<close>) and exporting a
  stack output (named by its key).
\<close>

datatype op =
    OpenArchive path
  | Glob path
  | WriteMember path
  | CloseArchive path
  | OpenFile path
  | ReadFile path
  | CloseFile path
  | Register string
  | Export string

text \<open>
  What the script takes from its host: the value of \<open>__file__\<close>, the working
  directory, the two imported constants, the SHA-256 hex digest as a function of a
  file's content, the time stamp and mode a newly written file gets, and which library
  calls raise (\<open>fault h c = Some e\<close>: the call \<open>c\<close> raises \<open>e\<close>).
\<close>

record host =
  script_file :: path
  cwd :: path
  PROJECT_NAME :: string
  CPU_8XL_id :: string
  sha256_hexdigest :: "content \<Rightarrow> string"
  clock :: nat
  create_mode :: nat
  fault :: "op \<Rightarrow> error option"

section \<open>Programs: state and exceptions\<close>

type_synonym 'a prog = "state \<Rightarrow> (error + 'a) \<times> state"

definition return :: "'a \<Rightarrow> 'a prog" where
  "return a = (\<lambda>s. (Inr a, s))"

definition andThen :: "'a prog \<Rightarrow> ('a \<Rightarrow> 'b prog) \<Rightarrow> 'b prog" where
  "andThen m f = (\<lambda>s. case m s of (Inl e, s') \<Rightarrow> (Inl e, s') | (Inr a, s') \<Rightarrow> f a s')"

definition lift :: "error + 'a \<Rightarrow> 'a prog" where
  "lift r = (\<lambda>s. (r, s))"

text \<open>
  Python's \<open>with E as v: body\<close> for a context manager whose \<open>__exit__\<close> closes the
  resource and returns \<open>None\<close> (\<open>ZipFile\<close>, file objects): an exception of \<open>E\<close>
  propagates; otherwise the body runs, the resource is closed whatever the body did,
  an exception of the close propagates, and otherwise the body's outcome stands.
\<close>

definition with_as :: "'r prog \<Rightarrow> ('r \<Rightarrow> unit prog) \<Rightarrow> ('r \<Rightarrow> 'a prog) \<Rightarrow> 'a prog" where
  "with_as enter exit body =
     andThen enter (\<lambda>v s.
       case body v s of (r, s') \<Rightarrow>
         (case exit v s' of (Inl e, s'') \<Rightarrow> (Inl e, s'') | (Inr _, s'') \<Rightarrow> (r, s'')))"

definition attempt :: "host \<Rightarrow> op \<Rightarrow> 'a prog \<Rightarrow> 'a prog" where
  "attempt h c act = (\<lambda>s. case fault h c of Some e \<Rightarrow> (Inl e, s) | None \<Rightarrow> act s)"

section \<open>Library calls\<close>

text \<open>
  \<open>Path.is_file\<close>; \<open>Path.rglob("*")\<close> and \<open>Path.glob("**/*")\<close>, which yield every
  path strictly below the directory, in the file system's order; \<open>Path.resolve\<close> of
  a path without links; \<open>ZipFile(zp, "w")\<close>, which creates or truncates the archive,
  \<open>ZipFile.write\<close>, which appends the member of a file to it, and its close;
  \<open>open(p, "rb")\<close>, \<open>read\<close> and close; the constructor of a resource, which
  registers it; and \<open>pulumi.export\<close>. A call raises when the host says so; writing,
  opening or reading a path that holds no regular file raises as well. The handle of
  the archive is the list of the members written so far.
\<close>

definition regular :: "filesystem \<Rightarrow> path \<Rightarrow> bool" where
  "regular fsys p = (case map_of fsys p of Some (File _ _ _) \<Rightarrow> True | _ \<Rightarrow> False)"

definition is_file :: "path \<Rightarrow> bool prog" where
  "is_file p = (\<lambda>s. (Inr (regular (fs s) p), s))"

definition rglob :: "host \<Rightarrow> path \<Rightarrow> path list prog" where
  "rglob h d = attempt h (Glob d) (\<lambda>s. (Inr (filter (strict_prefix d) (map fst (fs s))), s))"

definition resolve :: "host \<Rightarrow> path \<Rightarrow> path" where
  "resolve h p = (if is_absolute p then p else cwd h @ p)"

definition store_archive :: "host \<Rightarrow> path \<Rightarrow> member list \<Rightarrow> state \<Rightarrow> state" where
  "store_archive h zp ms s =
     s\<lparr>fs := AList.update zp (File (clock h) (create_mode h) (Archive ms)) (fs s)\<rparr>"

definition zip_open :: "host \<Rightarrow> path \<Rightarrow> member list prog" where
  "zip_open h zp = attempt h (OpenArchive zp) (\<lambda>s. (Inr [], store_archive h zp [] s))"

definition zip_write :: "host \<Rightarrow> path \<Rightarrow> member list \<Rightarrow> path \<Rightarrow> path \<Rightarrow> member list prog" where
  "zip_write h zp zipf file_path arc =
     attempt h (WriteMember file_path) (\<lambda>s.
       case map_of (fs s) file_path of
         Some (File mt md c) \<Rightarrow>
           (let zipf' = zipf @ [Member (as_posix arc) mt md c]
            in (Inr zipf', store_archive h zp zipf' s))
       | _ \<Rightarrow> (Inl (OSError (as_posix file_path)), s))"

definition zip_close :: "host \<Rightarrow> path \<Rightarrow> unit prog" where
  "zip_close h zp = attempt h (CloseArchive zp) (return ())"

definition open_rb :: "host \<Rightarrow> path \<Rightarrow> path prog" where
  "open_rb h p =
     attempt h (OpenFile p) (\<lambda>s.
       case map_of (fs s) p of
         Some (File _ _ _) \<Rightarrow> (Inr p, s)
       | _ \<Rightarrow> (Inl (OSError (as_posix p)), s))"

definition read_all :: "host \<Rightarrow> path \<Rightarrow> content prog" where
  "read_all h p =
     attempt h (ReadFile p) (\<lambda>s.
       case map_of (fs s) p of
         Some (File _ _ c) \<Rightarrow> (Inr c, s)
       | _ \<Rightarrow> (Inl (OSError (as_posix p)), s))"

definition close_file :: "host \<Rightarrow> path \<Rightarrow> unit prog" where
  "close_file h p = attempt h (CloseFile p) (return ())"

definition register :: "host \<Rightarrow> resource \<Rightarrow> resource prog" where
  "register h r =
     attempt h (Register (resource_name r)) (\<lambda>s. (Inr r, s\<lparr>registered := registered s @ [r]\<rparr>))"

definition attr :: "resource \<Rightarrow> string \<Rightarrow> pulumi_output" where
  "attr r a = Output (resource_name r) a"

definition pulumi_export :: "host \<Rightarrow> string \<Rightarrow> pulumi_output \<Rightarrow> unit prog" where
  "pulumi_export h k v =
     attempt h (Export k) (\<lambda>s. (Inr (), s\<lparr>stack_outputs := stack_outputs s @ [(k, v)]\<rparr>))"

section \<open>The script\<close>

text \<open>
  \<open>infra/__main__.py\<close>, statement by statement: the paths (lines 11 to 13 and 48),
  the archive loop and the \<open>with\<close> block around it (16 to 20), the hash (26 and 27),
  the source file loop (49 to 79), the three resources (30 to 36, 81 to 92, 94 to 99)
  and, in \<open>main\<close>, the whole module in program order with its seven exports.
\<close>

definition BASE_DIR :: "host \<Rightarrow> path" where
  "BASE_DIR h = parent (script_file h)"

definition env_dir :: "host \<Rightarrow> path" where
  "env_dir h = BASE_DIR h @ [''custom_environment'']"

definition zip_path :: "host \<Rightarrow> path" where
  "zip_path h = BASE_DIR h @ [''custom_environment.zip'']"

definition application_path :: "host \<Rightarrow> path" where
  "application_path h = parent (BASE_DIR h)"

fun archive_loop :: "host \<Rightarrow> path list \<Rightarrow> member list \<Rightarrow> member list prog" where
  "archive_loop h [] zipf = return zipf"
| "archive_loop h (file_path # rest) zipf =
     andThen (is_file file_path) (\<lambda>isf.
       if isf then
         andThen (lift (relative_to file_path (env_dir h))) (\<lambda>arc.
         andThen (zip_write h (zip_path h) zipf file_path arc) (\<lambda>zipf'.
         archive_loop h rest zipf'))
       else archive_loop h rest zipf)"

definition build_archive :: "host \<Rightarrow> unit prog" where
  "build_archive h =
     with_as (zip_open h (zip_path h)) (\<lambda>_. zip_close h (zip_path h)) (\<lambda>zipf.
       andThen (rglob h (env_dir h)) (\<lambda>paths.
       andThen (archive_loop h paths zipf) (\<lambda>_. return ())))"

definition hash_archive :: "host \<Rightarrow> string prog" where
  "hash_archive h =
     with_as (open_rb h (zip_path h)) (close_file h) (\<lambda>z.
       andThen (read_all h z) (\<lambda>bytes. return (sha256_hexdigest h bytes)))"

definition IGNORED_PARTS :: "string set" where
  "IGNORED_PARTS =
     {''.venv'', ''node_modules'', ''dist'', ''uploads'', ''.git'', ''.github'', ''.vscode'',
      ''.idea'', ''coverage'', ''.pytest_cache'', ''__pycache__''}"

fun source_loop ::
  "host \<Rightarrow> path list \<Rightarrow> (string \<times> string) list \<Rightarrow> (string \<times> string) list prog" where
  "source_loop h [] source_files = return source_files"
| "source_loop h (f # rest) source_files =
     andThen (is_file f) (\<lambda>isf.
       if \<not> isf then source_loop h rest source_files
       else if \<exists>part \<in> set f. part \<in> IGNORED_PARTS then source_loop h rest source_files
       else if ''infra'' \<in> set f \<and> name_of f \<notin> {''build-app.sh'', ''start-app.sh''}
         then source_loop h rest source_files
       else if name_of f \<in> {''build-app.sh'', ''start-app.sh''}
         then source_loop h rest (source_files @ [(as_posix f, name_of f)])
       else
         andThen (lift (relative_to f (application_path h))) (\<lambda>r.
         source_loop h rest (source_files @ [(as_posix f, as_posix r)])))"

definition select_source_files :: "host \<Rightarrow> (string \<times> string) list prog" where
  "select_source_files h =
     andThen (rglob h (application_path h)) (\<lambda>paths. source_loop h paths [])"

definition exe_env_resource :: "host \<Rightarrow> string \<Rightarrow> resource" where
  "exe_env_resource h docker_context_hash =
     ExecutionEnvironment
       (''['' @ PROJECT_NAME h @ '']-exe-env'')
       ''other''
       [''customApplication'']
       (as_posix (resolve h (zip_path h)))
       (''Custom execution environment for VideoLM with hash '' @ docker_context_hash)"

definition app_source_resource :: "host \<Rightarrow> resource \<Rightarrow> (string \<times> string) list \<Rightarrow> resource" where
  "app_source_resource h exe_env source_files =
     ApplicationSource
       (''['' @ PROJECT_NAME h @ '']-app-source'')
       (''['' @ PROJECT_NAME h @ '']-app-source'')
       source_files
       (attr exe_env ''id'')
       (attr exe_env ''version_id'')
       (ApplicationSourceResourcesArgs (CPU_8XL_id h) 1 True)"

definition app_resource :: "host \<Rightarrow> resource \<Rightarrow> resource" where
  "app_resource h app_source =
     CustomApplication
       (''['' @ PROJECT_NAME h @ '']-app'')
       (''['' @ PROJECT_NAME h @ '']-app'')
       (attr app_source ''version_id'')
       False"

definition main :: "host \<Rightarrow> unit prog" where
  "main h =
     andThen (build_archive h) (\<lambda>_.
     andThen (hash_archive h) (\<lambda>docker_context_hash.
     andThen (register h (exe_env_resource h docker_context_hash)) (\<lambda>exe_env.
     andThen (pulumi_export h ''execution_environment_name'' (attr exe_env ''name'')) (\<lambda>_.
     andThen (pulumi_export h ''execution_environment_id'' (attr exe_env ''id'')) (\<lambda>_.
     andThen (pulumi_export h ''execution_environment_version_id'' (attr exe_env ''version_id'')) (\<lambda>_.
     andThen (select_source_files h) (\<lambda>source_files.
     andThen (register h (app_source_resource h exe_env source_files)) (\<lambda>app_source.
     andThen (register h (app_resource h app_source)) (\<lambda>app.
     andThen (pulumi_export h ''app_source_id'' (attr app_source ''id'')) (\<lambda>_.
     andThen (pulumi_export h ''app_source_version_id'' (attr app_source ''version_id'')) (\<lambda>_.
     andThen (pulumi_export h ''app_id'' (attr app ''id'')) (\<lambda>_.
     pulumi_export h ''app_url'' (attr app ''application_url'')))))))))))))"

section \<open>What the script computes, in closed form\<close>

text \<open>
  The loops of the script, written without state: the member that \<open>zipf.write\<close>
  makes of a file, the walk of the \<open>custom_environment\<close> directory, and the member
  table the archive loop builds; the test a file passes to be listed, the pair the source
  loop appends for it, and the list it builds; the stack outputs; and the state a run
  that completes ends in. The lemmas below show that the script computes them.
\<close>

definition member_for :: "host \<Rightarrow> filesystem \<Rightarrow> path \<Rightarrow> member option" where
  "member_for h fsys p =
     (case map_of fsys p of
        Some (File mt md c) \<Rightarrow> Some (Member (as_posix (drop (length (env_dir h)) p)) mt md c)
      | _ \<Rightarrow> None)"

definition env_listing :: "host \<Rightarrow> filesystem \<Rightarrow> path list" where
  "env_listing h fsys = filter (strict_prefix (env_dir h)) (map fst fsys)"

definition archive_of :: "host \<Rightarrow> filesystem \<Rightarrow> member list" where
  "archive_of h fsys = List.map_filter (member_for h fsys) (env_listing h fsys)"

definition selected :: "path \<Rightarrow> bool" where
  "selected f =
     (\<not> (\<exists>part \<in> set f. part \<in> IGNORED_PARTS) \<and>
      \<not> (''infra'' \<in> set f \<and> name_of f \<notin> {''build-app.sh'', ''start-app.sh''}))"

definition source_entry :: "host \<Rightarrow> path \<Rightarrow> string \<times> string" where
  "source_entry h f =
     (as_posix f,
      if name_of f \<in> {''build-app.sh'', ''start-app.sh''} then name_of f
      else as_posix (drop (length (application_path h)) f))"

definition project_files :: "host \<Rightarrow> filesystem \<Rightarrow> path list" where
  "project_files h fsys =
     filter (\<lambda>f. regular fsys f \<and> selected f)
       (filter (strict_prefix (application_path h)) (map fst fsys))"

definition source_list :: "host \<Rightarrow> filesystem \<Rightarrow> (string \<times> string) list" where
  "source_list h fsys = map (source_entry h) (project_files h fsys)"

definition exports_of :: "resource \<Rightarrow> resource \<Rightarrow> resource \<Rightarrow> (string \<times> pulumi_output) list" where
  "exports_of exe_env app_source app =
     [(''execution_environment_name'', attr exe_env ''name''),
      (''execution_environment_id'', attr exe_env ''id''),
      (''execution_environment_version_id'', attr exe_env ''version_id''),
      (''app_source_id'', attr app_source ''id''),
      (''app_source_version_id'', attr app_source ''version_id''),
      (''app_id'', attr app ''id''),
      (''app_url'', attr app ''application_url'')]"

definition final_state :: "host \<Rightarrow> state \<Rightarrow> state" where
  "final_state h s =
     (let archive = archive_of h (fs s);
          s1 = store_archive h (zip_path h) archive s;
          exe_env = exe_env_resource h (sha256_hexdigest h (Archive archive));
          app_source = app_source_resource h exe_env (source_list h (fs s1));
          app = app_resource h app_source
      in s1\<lparr>registered := registered s @ [exe_env, app_source, app],
            stack_outputs := stack_outputs s @ exports_of exe_env app_source app\<rparr>)"

section \<open>The library calls of a run\<close>

text \<open>
  \<open>script_calls\<close> lists the library calls of a run in which none raises, in program
  order. \<open>propagates h cs m s\<close>: the program \<open>m\<close>, run in \<open>s\<close>, completes when none
  of the calls \<open>cs\<close> raises, and otherwise ends with an exception that one of them
  raised. \<open>silent m\<close>: \<open>m\<close> exports nothing, whatever its outcome.
  \<open>exports_within K m s\<close>: the outputs \<open>m\<close> exports have keys in \<open>K\<close>;
  \<open>fails_within K m s\<close>: they do when \<open>m\<close> fails.
\<close>

definition archive_calls :: "host \<Rightarrow> filesystem \<Rightarrow> op list" where
  "archive_calls h fsys =
     [OpenArchive (zip_path h)] @
     (Glob (env_dir h) # map WriteMember (filter (regular fsys) (env_listing h fsys))) @
     [CloseArchive (zip_path h)]"

definition script_calls :: "host \<Rightarrow> filesystem \<Rightarrow> op list" where
  "script_calls h fsys =
     archive_calls h fsys @
     ([OpenFile (zip_path h)] @ [ReadFile (zip_path h)] @ [CloseFile (zip_path h)]) @
     [Register (''['' @ PROJECT_NAME h @ '']-exe-env'')] @
     [Export ''execution_environment_name''] @
     [Export ''execution_environment_id''] @
     [Export ''execution_environment_version_id''] @
     [Glob (application_path h)] @
     [Register (''['' @ PROJECT_NAME h @ '']-app-source'')] @
     [Register (''['' @ PROJECT_NAME h @ '']-app'')] @
     [Export ''app_source_id''] @
     [Export ''app_source_version_id''] @
     [Export ''app_id''] @
     [Export ''app_url'']"

definition propagates :: "host \<Rightarrow> op list \<Rightarrow> 'a prog \<Rightarrow> state \<Rightarrow> bool" where
  "propagates h cs m s =
     (case fst (m s) of
        Inr _ \<Rightarrow> (\<forall>c \<in> set cs. fault h c = None)
      | Inl e \<Rightarrow> (\<exists>c \<in> set cs. fault h c = Some e))"




section \<open>Notions of the claims\<close>



section \<open>Example hosts and file systems\<close>

text \<open>
  A project at \<open>/app\<close> with the script in \<open>/app/infra\<close>, on a host where no call
  raises; \<open>demo_digest\<close> stands in for SHA-256 there. \<open>built_fs\<close> is the file system
  after the archive step. Two file systems that differ in one modification time only.
  A host on which the walk of the project tree raises.
\<close>

definition demo_digest :: "content \<Rightarrow> string" where
  "demo_digest c = (case c of Bytes bs \<Rightarrow> ''raw'' | Archive ms \<Rightarrow> concat (map arcname ms))"

definition demo_host :: host where
  "demo_host = \<lparr>script_file = [''/'', ''app'', ''infra'', ''__main__.py''], cwd = [''/'', ''app'', ''infra''],
     PROJECT_NAME = ''VideoLM'', CPU_8XL_id = ''cpu.8xlarge'', sha256_hexdigest = demo_digest,
     clock = 1700000000, create_mode = 420, fault = (\<lambda>_. None)\<rparr>"

definition demo_fs :: filesystem where
  "demo_fs =
    [([''/'', ''app''], Dir),
     ([''/'', ''app'', ''README.md''], File 1600000000 420 (Bytes [1, 2])),
     ([''/'', ''app'', ''infra''], Dir),
     ([''/'', ''app'', ''infra'', ''__main__.py''], File 1600000000 420 (Bytes [3])),
     ([''/'', ''app'', ''infra'', ''build-app.sh''], File 1600000000 493 (Bytes [4])),
     ([''/'', ''app'', ''infra'', ''custom_environment''], Dir),
     ([''/'', ''app'', ''infra'', ''custom_environment'', ''Dockerfile''], File 1600000000 420 (Bytes [5, 6])),
     ([''/'', ''app'', ''infra'', ''custom_environment'', ''conf''], Dir),
     ([''/'', ''app'', ''infra'', ''custom_environment'', ''conf'', ''app.ini''], File 1600000100 420 (Bytes [7])),
     ([''/'', ''app'', ''node_modules'', ''x.js''], File 1600000000 420 (Bytes [8])),
     ([''/'', ''app'', ''tools'', ''build-app.sh''], File 1600000000 493 (Bytes [9]))]"

definition demo_state :: state where
  "demo_state = \<lparr>fs = demo_fs, registered = [], stack_outputs = []\<rparr>"

definition built_fs :: filesystem where
  "built_fs = demo_fs @ [([''/'', ''app'', ''infra'', ''custom_environment.zip''],
      File 1700000000 420 (Archive [Member ''Dockerfile'' 1600000000 420 (Bytes [5, 6]),
      Member ''conf/app.ini'' 1600000100 420 (Bytes [7])]))]"

definition built_state :: state where
  "built_state = \<lparr>fs = built_fs, registered = [], stack_outputs = []\<rparr>"






section \<open>Paths\<close>

















lemma relative_to_under: "prefix d p \<Longrightarrow> relative_to p d = Inr (drop (length d) p)"
  by (simp add: relative_to_def)

lemma env_dir_not_zip: "strict_prefix (env_dir h) p \<Longrightarrow> p \<noteq> zip_path h"
  by (auto simp: env_dir_def zip_path_def strict_prefix_def)


section \<open>Rules for programs\<close>

lemma andThen_Inr_iff:
  "andThen m f s = (Inr b, t) \<longleftrightarrow> (\<exists>a s'. m s = (Inr a, s') \<and> f a s' = (Inr b, t))"
  by (auto simp: andThen_def split: prod.splits sum.splits)

lemma andThen_Inr: "m s = (Inr a, s') \<Longrightarrow> andThen m f s = f a s'"
  by (simp add: andThen_def)

lemma attempt_Inr_iff:
  "attempt h c act s = (Inr a, t) \<longleftrightarrow> fault h c = None \<and> act s = (Inr a, t)"
  by (auto simp: attempt_def split: option.splits)

lemma with_as_Inr_iff:
  "with_as en ex body s = (Inr a, t) \<longleftrightarrow>
     (\<exists>v s1 s2. en s = (Inr v, s1) \<and> body v s1 = (Inr a, s2) \<and> ex v s2 = (Inr (), t))"
  by (auto simp: with_as_def andThen_def split: prod.splits sum.splits)

lemma propagates_andThen:
  assumes "propagates h cs1 m s"
      and "\<And>a s'. m s = (Inr a, s') \<Longrightarrow> propagates h cs2 (f a) s'"
  shows "propagates h (cs1 @ cs2) (andThen m f) s"
proof (cases "m s")
  case (Pair r s')
  show ?thesis
  proof (cases r)
    case (Inl e)
    with Pair assms(1) show ?thesis by (auto simp: propagates_def andThen_def)
  next
    case (Inr a)
    with Pair assms(1) have none: "\<forall>c \<in> set cs1. fault h c = None"
      by (simp add: propagates_def)
    from Inr Pair have eq: "andThen m f s = f a s'" by (simp add: andThen_def)
    from assms(2) Inr Pair have "propagates h cs2 (f a) s'" by simp
    with none show ?thesis unfolding propagates_def eq
      by (auto split: sum.splits)
  qed
qed

lemma propagates_with_as:
  assumes "propagates h cs1 en s"
      and "\<And>v s'. en s = (Inr v, s') \<Longrightarrow> propagates h cs2 (body v) s'"
      and "\<And>v s0 s'. en s = (Inr v, s0) \<Longrightarrow> propagates h cs3 (ex v) s'"
  shows "propagates h (cs1 @ cs2 @ cs3) (with_as en ex body) s"
proof (cases "en s")
  case (Pair r s')
  show ?thesis
  proof (cases r)
    case (Inl e)
    with Pair assms(1) show ?thesis by (auto simp: propagates_def with_as_def andThen_def)
  next
    case (Inr v)
    with Pair assms(1) have none: "\<forall>c \<in> set cs1. fault h c = None"
      by (simp add: propagates_def)
    obtain r2 s2 where b: "body v s' = (r2, s2)" by (cases "body v s'")
    obtain r3 s3 where x: "ex v s2 = (r3, s3)" by (cases "ex v s2")
    from assms(2) Inr Pair b have pb: "case r2 of Inr _ \<Rightarrow> (\<forall>c \<in> set cs2. fault h c = None)
      | Inl e \<Rightarrow> (\<exists>c \<in> set cs2. fault h c = Some e)"
      by (fastforce simp: propagates_def)
    from assms(3) [of v s' s2] Pair Inr x have px: "case r3 of Inr _ \<Rightarrow> (\<forall>c \<in> set cs3. fault h c = None)
      | Inl e \<Rightarrow> (\<exists>c \<in> set cs3. fault h c = Some e)"
      by (simp add: propagates_def)
    have "fst (with_as en ex body s) = (case r3 of Inl e \<Rightarrow> Inl e | Inr _ \<Rightarrow> r2)"
      using Pair Inr b x by (simp add: with_as_def andThen_def split: sum.splits)
    then show ?thesis using none pb px unfolding propagates_def
      by (auto split: sum.splits)
  qed
qed

lemma propagates_attempt:
  assumes "\<exists>a t. act s = (Inr a, t)"
  shows "propagates h [c] (attempt h c act) s"
  using assms by (auto simp: propagates_def attempt_def split: option.splits)

lemma register_Inr:
  "register h r s = (Inr r', t) \<Longrightarrow> r' = r \<and> t = s\<lparr>registered := registered s @ [r]\<rparr>"
  by (auto simp: register_def attempt_Inr_iff)

lemma pulumi_export_Inr:
  "pulumi_export h k v s = (Inr u, t) \<Longrightarrow> t = s\<lparr>stack_outputs := stack_outputs s @ [(k, v)]\<rparr>"
  by (auto simp: pulumi_export_def attempt_Inr_iff)

lemma propagates_register:
  "resource_name r = n \<Longrightarrow> propagates h [Register n] (register h r) s"
  unfolding register_def by (auto intro: propagates_attempt)

lemma propagates_export:
  "propagates h [Export k] (pulumi_export h k v) s"
  unfolding pulumi_export_def by (auto intro: propagates_attempt)

section \<open>The archive step\<close>

lemma map_of_store_archive:
  "map_of (fs (store_archive h zp ms s)) p =
     (if p = zp then Some (File (clock h) (create_mode h) (Archive ms)) else map_of (fs s) p)"
  by (simp add: store_archive_def update_conv')

lemma store_archive_twice:
  "store_archive h zp ms (store_archive h zp ms' s) = store_archive h zp ms s"
  by (simp add: store_archive_def)

lemma regular_store_archive:
  "p \<noteq> zp \<Longrightarrow> regular (fs (store_archive h zp ms s)) p = regular (fs s) p"
  by (simp add: regular_def map_of_store_archive)


lemma archive_loop_propagates:
  assumes "\<forall>p \<in> set ps. strict_prefix (env_dir h) p"
  shows "propagates h (map WriteMember (filter (regular (fs s0)) ps))
           (archive_loop h ps zipf) (store_archive h (zip_path h) zipf s0)"
  using assms
proof (induction ps arbitrary: zipf)
  case Nil
  then show ?case by (simp add: propagates_def return_def)
next
  case (Cons p ps)
  let ?s = "store_archive h (zip_path h) zipf s0"
  have nz: "p \<noteq> zip_path h" using Cons.prems env_dir_not_zip by simp
  have isf: "is_file p ?s = (Inr (regular (fs s0) p), ?s)"
    using nz by (simp add: is_file_def regular_store_archive)
  have IH: "\<And>z. propagates h (map WriteMember (filter (regular (fs s0)) ps))
           (archive_loop h ps z) (store_archive h (zip_path h) z s0)"
    using Cons by simp
  show ?case
  proof (cases "regular (fs s0) p")
    case False
    then have "archive_loop h (p # ps) zipf ?s = archive_loop h ps zipf ?s"
      using isf by (simp add: andThen_def)
    then show ?thesis using IH [of zipf] False by (simp add: propagates_def)
  next
    case True
    then obtain mt md c where f: "map_of (fs s0) p = Some (File mt md c)"
      by (auto simp: regular_def split: option.splits node.splits)
    have rel: "relative_to p (env_dir h) = Inr (drop (length (env_dir h)) p)"
      using Cons.prems by (simp add: relative_to_under strict_prefix_def)
    let ?z = "zipf @ [Member (as_posix (drop (length (env_dir h)) p)) mt md c]"
    show ?thesis
    proof (cases "fault h (WriteMember p)")
      case (Some e)
      then have "fst (archive_loop h (p # ps) zipf ?s) = Inl e"
        using isf True rel by (simp add: andThen_def lift_def zip_write_def attempt_def)
      then show ?thesis using Some True by (auto simp: propagates_def)
    next
      case None
      then have "zip_write h (zip_path h) zipf p (drop (length (env_dir h)) p) ?s
                 = (Inr ?z, store_archive h (zip_path h) ?z s0)"
        using f nz by (simp add: zip_write_def attempt_def map_of_store_archive store_archive_twice Let_def)
      then have "archive_loop h (p # ps) zipf ?s
                 = archive_loop h ps ?z (store_archive h (zip_path h) ?z s0)"
        using isf True rel by (simp add: andThen_def lift_def)
      then show ?thesis using IH [of ?z] None True by (auto simp: propagates_def split: sum.splits)
    qed
  qed
qed

lemma archive_loop_Inr:
  assumes "\<forall>p \<in> set ps. strict_prefix (env_dir h) p"
      and "archive_loop h ps zipf (store_archive h (zip_path h) zipf s0) = (Inr ms, t)"
  shows "ms = zipf @ List.map_filter (member_for h (fs s0)) ps \<and>
         t = store_archive h (zip_path h) ms s0"
  using assms
proof (induction ps arbitrary: zipf)
  case Nil
  then show ?case by (auto simp: return_def)
next
  case (Cons p ps)
  let ?s = "store_archive h (zip_path h) zipf s0"
  have nz: "p \<noteq> zip_path h" using Cons.prems env_dir_not_zip by simp
  have isf: "is_file p ?s = (Inr (regular (fs s0) p), ?s)"
    using nz by (simp add: is_file_def regular_store_archive)
  show ?case
  proof (cases "regular (fs s0) p")
    case False
    then have "member_for h (fs s0) p = None"
      by (auto simp: member_for_def regular_def split: option.splits node.splits)
    moreover have "archive_loop h ps zipf ?s = (Inr ms, t)"
      using Cons.prems(2) isf False by (simp add: andThen_Inr)
    ultimately show ?thesis using Cons.IH [of zipf] Cons.prems(1)
      by simp
  next
    case True
    then obtain mt md c where f: "map_of (fs s0) p = Some (File mt md c)"
      by (auto simp: regular_def split: option.splits node.splits)
    have rel: "relative_to p (env_dir h) = Inr (drop (length (env_dir h)) p)"
      using Cons.prems by (simp add: relative_to_under strict_prefix_def)
    let ?m = "Member (as_posix (drop (length (env_dir h)) p)) mt md c"
    have mem: "member_for h (fs s0) p = Some ?m" using f by (simp add: member_for_def)
    have "fault h (WriteMember p) = None"
      using Cons.prems(2) isf True rel
      by (auto simp: andThen_def lift_def zip_write_def attempt_def split: option.splits)
    then have "zip_write h (zip_path h) zipf p (drop (length (env_dir h)) p) ?s
                 = (Inr (zipf @ [?m]), store_archive h (zip_path h) (zipf @ [?m]) s0)"
      using f nz by (simp add: zip_write_def attempt_def map_of_store_archive store_archive_twice Let_def)
    then have "archive_loop h ps (zipf @ [?m]) (store_archive h (zip_path h) (zipf @ [?m]) s0) = (Inr ms, t)"
      using Cons.prems(2) isf True rel by (simp add: andThen_def lift_def)
    then show ?thesis using Cons.IH [of "zipf @ [?m]"] Cons.prems(1) mem
      by simp
  qed
qed

lemma env_listing_store:
  "env_listing h (fs (store_archive h (zip_path h) ms s)) = env_listing h (fs s)"
  using env_dir_not_zip [of h "zip_path h"]
  by (auto simp: env_listing_def store_archive_def update_keys)

lemma env_listing_under: "\<forall>p \<in> set (env_listing h fsys). strict_prefix (env_dir h) p"
  by (simp add: env_listing_def)

lemma build_body_propagates:
  "propagates h (Glob (env_dir h) # map WriteMember (filter (regular (fs s0)) (env_listing h (fs s0))))
     (andThen (rglob h (env_dir h)) (\<lambda>paths.
        andThen (archive_loop h paths []) (\<lambda>_. return ())))
     (store_archive h (zip_path h) [] s0)"
proof (cases "fault h (Glob (env_dir h))")
  case (Some e)
  then show ?thesis by (simp add: propagates_def andThen_def rglob_def attempt_def)
next
  case None
  let ?s = "store_archive h (zip_path h) [] s0"
  let ?ps = "env_listing h (fs s0)"
  have g: "rglob h (env_dir h) ?s = (Inr ?ps, ?s)"
    using None env_listing_store [of h "[]" s0]
    by (simp add: rglob_def attempt_def env_listing_def)
  have "propagates h (map WriteMember (filter (regular (fs s0)) ?ps)) (archive_loop h ?ps []) ?s"
    by (rule archive_loop_propagates) (rule env_listing_under)
  moreover have "fst (andThen (rglob h (env_dir h)) (\<lambda>paths.
        andThen (archive_loop h paths []) (\<lambda>_. return ())) ?s)
      = (case fst (archive_loop h ?ps [] ?s) of Inl e \<Rightarrow> Inl e | Inr _ \<Rightarrow> Inr ())"
    using g by (simp add: andThen_def return_def split: prod.splits sum.splits)
  ultimately show ?thesis using None
    by (auto simp: propagates_def split: sum.splits)
qed

lemma build_archive_propagates:
  "propagates h (archive_calls h (fs s)) (build_archive h) s"
  unfolding archive_calls_def build_archive_def
proof (rule propagates_with_as)
  show "propagates h [OpenArchive (zip_path h)] (zip_open h (zip_path h)) s"
    unfolding zip_open_def by (rule propagates_attempt) simp
next
  fix v s'
  assume "zip_open h (zip_path h) s = (Inr v, s')"
  then have "v = []" "s' = store_archive h (zip_path h) [] s"
    by (auto simp: zip_open_def attempt_def split: option.splits)
  then show "propagates h (Glob (env_dir h) # map WriteMember (filter (regular (fs s)) (env_listing h (fs s))))
     (andThen (rglob h (env_dir h)) (\<lambda>paths.
        andThen (archive_loop h paths v) (\<lambda>_. return ()))) s'"
    using build_body_propagates [of h s] by simp
next
  fix v :: "member list" and s0 s'
  show "propagates h [CloseArchive (zip_path h)] (zip_close h (zip_path h)) s'"
    unfolding zip_close_def by (rule propagates_attempt) (simp add: return_def)
qed

lemma build_archive_Inr:
  assumes "build_archive h s = (Inr u, t)"
  shows "t = store_archive h (zip_path h) (archive_of h (fs s)) s"
proof -
  let ?s = "store_archive h (zip_path h) [] s"
  from assms obtain ms t' where
    loop: "archive_loop h (env_listing h (fs ?s)) [] ?s = (Inr ms, t')" and
    close: "zip_close h (zip_path h) t' = (Inr (), t)"
    by (auto simp: build_archive_def with_as_Inr_iff andThen_Inr_iff zip_open_def rglob_def
        attempt_Inr_iff return_def env_listing_def)
  from loop have "archive_loop h (env_listing h (fs s)) [] ?s = (Inr ms, t')"
    by (simp add: env_listing_store)
  from archive_loop_Inr [OF env_listing_under this]
  have "t' = store_archive h (zip_path h) (archive_of h (fs s)) s"
    by (simp add: archive_of_def)
  moreover from close have "t = t'"
    by (simp add: zip_close_def attempt_Inr_iff return_def)
  ultimately show ?thesis by simp
qed






section \<open>The hash step\<close>

lemma hash_archive_propagates:
  assumes "map_of (fs s) (zip_path h) = Some (File mt md c)"
  shows "propagates h ([OpenFile (zip_path h)] @ [ReadFile (zip_path h)] @ [CloseFile (zip_path h)])
           (hash_archive h) s"
  unfolding hash_archive_def
proof (rule propagates_with_as)
  show "propagates h [OpenFile (zip_path h)] (open_rb h (zip_path h)) s"
    unfolding open_rb_def by (rule propagates_attempt) (simp add: assms)
next
  fix v s'
  assume "open_rb h (zip_path h) s = (Inr v, s')"
  then have "v = zip_path h" "s' = s"
    by (auto simp: open_rb_def attempt_def split: option.splits node.splits)
  then have "read_all h v s' = attempt h (ReadFile (zip_path h)) (\<lambda>s. (Inr c, s)) s"
    using assms by (simp add: read_all_def attempt_def split: option.splits)
  then have "fst (andThen (read_all h v) (\<lambda>bytes. return (sha256_hexdigest h bytes)) s')
     = (case fault h (ReadFile (zip_path h)) of Some e \<Rightarrow> Inl e | None \<Rightarrow> Inr (sha256_hexdigest h c))"
    by (simp add: andThen_def attempt_def return_def split: option.splits)
  then show "propagates h [ReadFile (zip_path h)]
     (andThen (read_all h v) (\<lambda>bytes. return (sha256_hexdigest h bytes))) s'"
    by (auto simp: propagates_def split: option.splits)
next
  fix v s0 s'
  assume "open_rb h (zip_path h) s = (Inr v, s0)"
  then have "v = zip_path h"
    by (auto simp: open_rb_def attempt_def split: option.splits node.splits)
  then show "propagates h [CloseFile (zip_path h)] (close_file h v) s'"
    unfolding close_file_def by (auto intro: propagates_attempt simp: return_def)
qed

lemma hash_archive_Inr:
  assumes "hash_archive h s = (Inr d, t)" and "map_of (fs s) (zip_path h) = Some (File mt md c)"
  shows "d = sha256_hexdigest h c \<and> t = s"
  using assms
  by (auto simp: hash_archive_def with_as_Inr_iff andThen_Inr_iff open_rb_def read_all_def
      close_file_def attempt_Inr_iff return_def)

section \<open>The source file list\<close>

lemma source_loop_run:
  assumes "\<forall>f \<in> set ps. prefix (application_path h) f"
  shows "source_loop h ps acc s =
           (Inr (acc @ map (source_entry h) (filter (\<lambda>f. regular (fs s) f \<and> selected f) ps)), s)"
  using assms
proof (induction ps arbitrary: acc)
  case Nil
  then show ?case by (simp add: return_def)
next
  case (Cons f ps)
  have IH: "\<And>acc. source_loop h ps acc s =
           (Inr (acc @ map (source_entry h) (filter (\<lambda>f. regular (fs s) f \<and> selected f) ps)), s)"
    using Cons by simp
  have rel: "relative_to f (application_path h) = Inr (drop (length (application_path h)) f)"
    using Cons.prems by (simp add: relative_to_under)
  show ?case
    by (simp add: andThen_def is_file_def lift_def rel IH selected_def source_entry_def)
qed

lemma select_source_files_propagates:
  "propagates h [Glob (application_path h)] (select_source_files h) s"
proof -
  have "\<forall>f \<in> set (filter (strict_prefix (application_path h)) (map fst (fs s))).
          prefix (application_path h) f"
    by (simp add: strict_prefix_def)
  from source_loop_run [OF this]
  show ?thesis
    by (auto simp: propagates_def select_source_files_def andThen_def rglob_def attempt_def
        split: option.splits)
qed

lemma select_source_files_Inr:
  assumes "select_source_files h s = (Inr l, t)"
  shows "l = source_list h (fs s) \<and> t = s"
proof -
  have "\<forall>f \<in> set (filter (strict_prefix (application_path h)) (map fst (fs s))).
          prefix (application_path h) f"
    by (simp add: strict_prefix_def)
  from source_loop_run [OF this] assms
  show ?thesis
    by (auto simp: select_source_files_def andThen_Inr_iff rglob_def attempt_Inr_iff
        source_list_def project_files_def)
qed

lemma select_source_files_run:
  assumes "fault h (Glob (application_path h)) = None"
  shows "select_source_files h s = (Inr (source_list h (fs s)), s)"
proof -
  obtain r t where m: "select_source_files h s = (r, t)" by (cases "select_source_files h s")
  from select_source_files_propagates [of h s] m assms obtain l where "r = Inr l"
    by (cases r) (auto simp: propagates_def)
  with m select_source_files_Inr [of h s l t] show ?thesis by simp
qed

lemma project_files_iff:
  "f \<in> set (project_files h fsys) \<longleftrightarrow>
     regular fsys f \<and> strict_prefix (application_path h) f \<and> selected f"
proof -
  have "regular fsys f \<Longrightarrow> f \<in> fst ` set fsys"
    by (auto simp: regular_def split: option.splits dest: map_of_SomeD intro: rev_image_eqI)
  then show ?thesis by (auto simp: project_files_def)
qed


section \<open>The whole script\<close>

lemma main_Inr:
  assumes "main h s = (Inr u, t)"
  shows "t = final_state h s"
proof -
  from assms obtain u1 s1 d s2 s3 l s4 where
    b: "build_archive h s = (Inr u1, s1)" and
    hsh: "hash_archive h s1 = (Inr d, s2)" and
    s3: "s3 = s2\<lparr>registered := registered s2 @ [exe_env_resource h d],
            stack_outputs := stack_outputs s2 @
              [(''execution_environment_name'', attr (exe_env_resource h d) ''name''),
               (''execution_environment_id'', attr (exe_env_resource h d) ''id''),
               (''execution_environment_version_id'', attr (exe_env_resource h d) ''version_id'')]\<rparr>" and
    sel: "select_source_files h s3 = (Inr l, s4)" and
    t: "t = s4\<lparr>registered := registered s4 @
              [app_source_resource h (exe_env_resource h d) l,
               app_resource h (app_source_resource h (exe_env_resource h d) l)],
            stack_outputs := stack_outputs s4 @
              [(''app_source_id'', attr (app_source_resource h (exe_env_resource h d) l) ''id''),
               (''app_source_version_id'', attr (app_source_resource h (exe_env_resource h d) l) ''version_id''),
               (''app_id'', attr (app_resource h (app_source_resource h (exe_env_resource h d) l)) ''id''),
               (''app_url'', attr (app_resource h (app_source_resource h (exe_env_resource h d) l)) ''application_url'')]\<rparr>"
    unfolding main_def andThen_Inr_iff
    by (fastforce dest!: register_Inr pulumi_export_Inr)
  from build_archive_Inr [OF b]
  have s1: "s1 = store_archive h (zip_path h) (archive_of h (fs s)) s" .
  then have "map_of (fs s1) (zip_path h) =
     Some (File (clock h) (create_mode h) (Archive (archive_of h (fs s))))"
    by (simp add: map_of_store_archive)
  from hash_archive_Inr [OF hsh this]
  have d: "d = sha256_hexdigest h (Archive (archive_of h (fs s)))" and s2: "s2 = s1" by simp_all
  from select_source_files_Inr [OF sel]
  have l: "l = source_list h (fs s3)" and s4: "s4 = s3" by simp_all
  have "fs s3 = fs s1" using s3 s2 by simp
  then show ?thesis
    using t s4 s3 s2 s1 d l
    by (simp add: final_state_def Let_def exports_of_def store_archive_def)
qed

lemma main_propagates: "propagates h (script_calls h (fs s)) (main h) s"
  unfolding main_def script_calls_def
proof (intro propagates_andThen)
  show "propagates h (archive_calls h (fs s)) (build_archive h) s"
    by (rule build_archive_propagates)
next
  fix a s'
  assume "build_archive h s = (Inr a, s')"
  from build_archive_Inr [OF this]
  have "map_of (fs s') (zip_path h) =
     Some (File (clock h) (create_mode h) (Archive (archive_of h (fs s))))"
    by (simp add: map_of_store_archive)
  then show "propagates h ([OpenFile (zip_path h)] @ [ReadFile (zip_path h)] @ [CloseFile (zip_path h)])
     (hash_archive h) s'"
    by (rule hash_archive_propagates)
qed (auto intro!: propagates_register propagates_export select_source_files_propagates
      simp: exe_env_resource_def app_source_resource_def app_resource_def)

lemma main_run:
  assumes "\<forall>c \<in> set (script_calls h (fs s)). fault h c = None"
  shows "main h s = (Inr (), final_state h s)"
proof -
  obtain r t where m: "main h s = (r, t)" by (cases "main h s")
  from main_propagates [of h s] m assms have "\<exists>u. r = Inr u"
    by (cases r) (auto simp: propagates_def)
  then have "r = Inr ()" by auto
  with m main_Inr [of h s "()" t] show ?thesis by simp
qed

lemma main_stages:
  assumes "main h s = (Inr u, t)"
  defines "s1 \<equiv> store_archive h (zip_path h) (archive_of h (fs s)) s"
  shows "build_archive h s = (Inr (), s1)"
    and "hash_archive h s1 = (Inr (sha256_hexdigest h (Archive (archive_of h (fs s)))), s1)"
    and "\<exists>s2. fs s2 = fs s1 \<and> select_source_files h s2 = (Inr (source_list h (fs s1)), s2)"
proof -
  from assms(1) obtain u1 s1' d s2 s3 l s4 where
    b: "build_archive h s = (Inr u1, s1')" and
    hsh: "hash_archive h s1' = (Inr d, s2)" and
    s3': "s3 = s2\<lparr>registered := registered s2 @ [exe_env_resource h d],
            stack_outputs := stack_outputs s2 @
              [(''execution_environment_name'', attr (exe_env_resource h d) ''name''),
               (''execution_environment_id'', attr (exe_env_resource h d) ''id''),
               (''execution_environment_version_id'', attr (exe_env_resource h d) ''version_id'')]\<rparr>" and
    sel: "select_source_files h s3 = (Inr l, s4)"
    unfolding main_def andThen_Inr_iff
    by (fastforce dest!: register_Inr pulumi_export_Inr)
  from s3' have s3: "fs s3 = fs s2" by simp
  from build_archive_Inr [OF b] have s1': "s1' = s1" by (simp add: s1_def)
  with b show "build_archive h s = (Inr (), s1)" by simp
  have "map_of (fs s1) (zip_path h) =
     Some (File (clock h) (create_mode h) (Archive (archive_of h (fs s))))"
    by (simp add: s1_def map_of_store_archive)
  from hash_archive_Inr [OF hsh [unfolded s1'] this] hsh s1'
  show "hash_archive h s1 = (Inr (sha256_hexdigest h (Archive (archive_of h (fs s)))), s1)"
    by simp
  then have "s2 = s1" using hsh s1' by simp
  with select_source_files_Inr [OF sel] sel s3
  show "\<exists>s2. fs s2 = fs s1 \<and> select_source_files h s2 = (Inr (source_list h (fs s1)), s2)"
    by auto
qed

lemma registered_final:
  "\<exists>d l. registered (final_state h s) = registered s @
      [exe_env_resource h d,
       app_source_resource h (exe_env_resource h d) l,
       app_resource h (app_source_resource h (exe_env_resource h d) l)] \<and>
     stack_outputs (final_state h s) = stack_outputs s @
       exports_of (exe_env_resource h d) (app_source_resource h (exe_env_resource h d) l)
         (app_resource h (app_source_resource h (exe_env_resource h d) l))"
  by (auto simp: final_state_def Let_def store_archive_def)

section \<open>The outputs of a run that fails\<close>

























section \<open>The examples, evaluated\<close>

lemma demo_paths:
  "BASE_DIR demo_host = [''/'', ''app'', ''infra'']"
  "env_dir demo_host = [''/'', ''app'', ''infra'', ''custom_environment'']"
  "zip_path demo_host = [''/'', ''app'', ''infra'', ''custom_environment.zip'']"
  "application_path demo_host = [''/'', ''app'']"
  by (simp_all add: BASE_DIR_def env_dir_def zip_path_def application_path_def parent_def demo_host_def)




lemma demo_project_files:
  "project_files demo_host built_fs =
     [[''/'', ''app'', ''README.md''],
      [''/'', ''app'', ''infra'', ''build-app.sh''],
      [''/'', ''app'', ''tools'', ''build-app.sh'']]"
  by (simp add: project_files_def demo_paths built_fs_def demo_fs_def strict_prefix_def
      regular_def selected_def IGNORED_PARTS_def name_of_def)

lemma demo_source_list:
  "source_list demo_host built_fs =
     [(''/app/README.md'', ''README.md''),
      (''/app/infra/build-app.sh'', ''build-app.sh''),
      (''/app/tools/build-app.sh'', ''build-app.sh'')]"
  unfolding source_list_def demo_project_files
  by (simp add: source_entry_def as_posix_def name_of_def demo_paths)

lemma demo_run: "main demo_host demo_state = (Inr (), final_state demo_host demo_state)"
  by (rule main_run) (simp add: demo_host_def)

lemma demo_select:
  "select_source_files demo_host built_state =
     (Inr [(''/app/README.md'', ''README.md''),
           (''/app/infra/build-app.sh'', ''build-app.sh''),
           (''/app/tools/build-app.sh'', ''build-app.sh'')], built_state)"
proof -
  have "fault demo_host (Glob (application_path demo_host)) = None"
    by (simp add: demo_host_def)
  from select_source_files_run [OF this, of built_state] show ?thesis
    by (simp add: built_state_def demo_source_list)
qed













section \<open>The claims\<close>



text \<open>
  Claim C2. In a run that completes, the hash is the SHA-256 hex digest of the content of
  the archive file as the archive step left it, and the description of the execution
  environment registered ends with that digest.
\<close>

theorem description_embeds_archive_digest:
  assumes "main h s = (Inr (), t)"
  shows "\<exists>s1 mt md c n l u p rest.
           build_archive h s = (Inr (), s1) \<and>
           map_of (fs s1) (zip_path h) = Some (File mt md c) \<and>
           hash_archive h s1 = (Inr (sha256_hexdigest h c), s1) \<and>
           registered t = registered s @
             ExecutionEnvironment n l u p
               (''Custom execution environment for VideoLM with hash '' @ sha256_hexdigest h c)
             # rest"
proof -
  let ?c = "Archive (archive_of h (fs s))"
  let ?s1 = "store_archive h (zip_path h) (archive_of h (fs s)) s"
  have 1: "build_archive h s = (Inr (), ?s1)"
    and 2: "hash_archive h ?s1 = (Inr (sha256_hexdigest h ?c), ?s1)"
    using main_stages [OF assms] by simp_all
  have 3: "map_of (fs ?s1) (zip_path h) = Some (File (clock h) (create_mode h) ?c)"
    by (simp add: map_of_store_archive)
  from main_Inr [OF assms]
  have 4: "\<exists>n l u p rest. registered t = registered s @
      ExecutionEnvironment n l u p
        (''Custom execution environment for VideoLM with hash '' @ sha256_hexdigest h ?c) # rest"
    by (simp add: final_state_def Let_def store_archive_def exe_env_resource_def)
  from 1 2 3 4 show ?thesis by blast
qed

theorem description_embeds_archive_digest_witness:
  "main demo_host demo_state = (Inr (), final_state demo_host demo_state) \<and>
   (\<exists>s1 mt md c n l u p rest.
      build_archive demo_host demo_state = (Inr (), s1) \<and>
      map_of (fs s1) (zip_path demo_host) = Some (File mt md c) \<and>
      hash_archive demo_host s1 = (Inr (sha256_hexdigest demo_host c), s1) \<and>
      registered (final_state demo_host demo_state) = registered demo_state @
        ExecutionEnvironment n l u p
          (''Custom execution environment for VideoLM with hash '' @ sha256_hexdigest demo_host c)
        # rest)"
  using demo_run description_embeds_archive_digest [OF demo_run] by (rule conjI)



text \<open>
  Claim C4. Every entry of the source file list comes from a regular file none of whose
  path components is in the exclusion set, and whose name is \<open>build-app.sh\<close> or
  \<open>start-app.sh\<close> when \<open>infra\<close> is one of its path components.
\<close>

theorem source_entries_respect_exclusions:
  assumes "select_source_files h s = (Inr source_files, t)"
  shows "\<forall>e \<in> set source_files. \<exists>f.
           regular (fs s) f \<and> fst e = as_posix f \<and>
           (\<forall>part \<in> set f. part \<notin>
              {''.venv'', ''node_modules'', ''dist'', ''uploads'', ''.git'', ''.github'',
               ''.vscode'', ''.idea'', ''coverage'', ''.pytest_cache'', ''__pycache__''}) \<and>
           (''infra'' \<in> set f \<longrightarrow> name_of f = ''build-app.sh'' \<or> name_of f = ''start-app.sh'')"
proof
  fix e
  assume e: "e \<in> set source_files"
  from select_source_files_Inr [OF assms(1)]
  have "source_files = source_list h (fs s)" by simp
  with e obtain f where f: "f \<in> set (project_files h (fs s))" and ef: "e = source_entry h f"
    by (auto simp: source_list_def)
  from f have reg: "regular (fs s) f" and sel: "selected f"
    by (simp_all add: project_files_iff)
  from sel have 1: "\<forall>part \<in> set f. part \<notin>
              {''.venv'', ''node_modules'', ''dist'', ''uploads'', ''.git'', ''.github'',
               ''.vscode'', ''.idea'', ''coverage'', ''.pytest_cache'', ''__pycache__''}"
    unfolding selected_def IGNORED_PARTS_def by blast
  from sel have 2: "''infra'' \<in> set f \<longrightarrow> name_of f = ''build-app.sh'' \<or> name_of f = ''start-app.sh''"
    unfolding selected_def by blast
  from reg ef 1 2 show "\<exists>f.
           regular (fs s) f \<and> fst e = as_posix f \<and>
           (\<forall>part \<in> set f. part \<notin>
              {''.venv'', ''node_modules'', ''dist'', ''uploads'', ''.git'', ''.github'',
               ''.vscode'', ''.idea'', ''coverage'', ''.pytest_cache'', ''__pycache__''}) \<and>
           (''infra'' \<in> set f \<longrightarrow> name_of f = ''build-app.sh'' \<or> name_of f = ''start-app.sh'')"
    by (intro exI [of _ f]) (simp add: source_entry_def)
qed

theorem source_entries_respect_exclusions_witness:
  "select_source_files demo_host built_state =
     (Inr [(''/app/README.md'', ''README.md''),
           (''/app/infra/build-app.sh'', ''build-app.sh''),
           (''/app/tools/build-app.sh'', ''build-app.sh'')], built_state) \<and>
   (\<exists>f. regular (fs built_state) f \<and> ''/app/infra/build-app.sh'' = as_posix f \<and>
      (\<forall>part \<in> set f. part \<notin>
         {''.venv'', ''node_modules'', ''dist'', ''uploads'', ''.git'', ''.github'',
          ''.vscode'', ''.idea'', ''coverage'', ''.pytest_cache'', ''__pycache__''}) \<and>
      (''infra'' \<in> set f \<longrightarrow> name_of f = ''build-app.sh'' \<or> name_of f = ''start-app.sh''))"
proof -
  from source_entries_respect_exclusions [OF demo_select]
  have "\<exists>f. regular (fs built_state) f \<and> ''/app/infra/build-app.sh'' = as_posix f \<and>
      (\<forall>part \<in> set f. part \<notin>
         {''.venv'', ''node_modules'', ''dist'', ''uploads'', ''.git'', ''.github'',
          ''.vscode'', ''.idea'', ''coverage'', ''.pytest_cache'', ''__pycache__''}) \<and>
      (''infra'' \<in> set f \<longrightarrow> name_of f = ''build-app.sh'' \<or> name_of f = ''start-app.sh'')"
    by simp
  with demo_select show ?thesis by blast
qed

text \<open>
  Claim C5, as amended. A run that completes registers exactly three resources with the
  provisioning engine: an execution environment, an application source and a custom
  application, in this order. The count of four does not hold.
\<close>

theorem three_resources_declared:
  assumes "main h s = (Inr (), t)"
  shows "\<exists>n1 l1 u1 p1 d1 n2 m2 f2 i2 v2 r2 n3 m3 v3 a3.
           registered t = registered s @
             [ExecutionEnvironment n1 l1 u1 p1 d1,
              ApplicationSource n2 m2 f2 i2 v2 r2,
              CustomApplication n3 m3 v3 a3] \<and>
           length (registered t) = length (registered s) + 3"
proof -
  from main_Inr [OF assms] have t: "t = final_state h s" .
  from registered_final [of h s] obtain d l where
    r: "registered t = registered s @
      [exe_env_resource h d,
       app_source_resource h (exe_env_resource h d) l,
       app_resource h (app_source_resource h (exe_env_resource h d) l)]"
    unfolding t by blast
  then have "length (registered t) = length (registered s) + 3" by simp
  with r show ?thesis
    unfolding exe_env_resource_def app_source_resource_def app_resource_def by blast
qed

theorem three_resources_declared_witness:
  "main demo_host demo_state = (Inr (), final_state demo_host demo_state) \<and>
   length (registered (final_state demo_host demo_state)) = 3"
proof -
  from three_resources_declared [OF demo_run]
  have "length (registered (final_state demo_host demo_state)) = length (registered demo_state) + 3"
    by blast
  then have "length (registered (final_state demo_host demo_state)) = 3"
    by (simp add: demo_state_def)
  with demo_run show ?thesis by (rule conjI)
qed

theorem four_resources_counterexample:
  "fst (main demo_host demo_state) = Inr () \<and>
   registered demo_state = [] \<and>
   length (registered (snd (main demo_host demo_state))) \<noteq> 4"
proof -
  have "length (registered (final_state demo_host demo_state)) = 3"
    using registered_final [of demo_host demo_state] by (auto simp: demo_state_def)
  moreover have "registered demo_state = []" by (simp add: demo_state_def)
  ultimately show ?thesis by (simp add: demo_run)
qed






text \<open>
  Claim C8. In a run that completes, the three resources are registered and seven stack
  outputs are exported, in this order: the name, id and version id of the execution
  environment, the id and version id of the application source, and the id and the
  application URL of the custom application. Every registered resource has its
  identifiers among them.
\<close>

theorem identifiers_exported:
  assumes "main h s = (Inr (), t)"
  shows "\<exists>exe_env app_source app.
           registered t = registered s @ [exe_env, app_source, app] \<and>
           stack_outputs t = stack_outputs s @
             [(''execution_environment_name'', Output (resource_name exe_env) ''name''),
              (''execution_environment_id'', Output (resource_name exe_env) ''id''),
              (''execution_environment_version_id'', Output (resource_name exe_env) ''version_id''),
              (''app_source_id'', Output (resource_name app_source) ''id''),
              (''app_source_version_id'', Output (resource_name app_source) ''version_id''),
              (''app_id'', Output (resource_name app) ''id''),
              (''app_url'', Output (resource_name app) ''application_url'')]"
proof -
  from main_Inr [OF assms] have t: "t = final_state h s" .
  from registered_final [of h s] show ?thesis
    unfolding t exports_of_def attr_def by blast
qed

theorem identifiers_exported_witness:
  "main demo_host demo_state = (Inr (), final_state demo_host demo_state) \<and>
   map fst (stack_outputs (final_state demo_host demo_state)) =
     [''execution_environment_name'', ''execution_environment_id'',
      ''execution_environment_version_id'', ''app_source_id'', ''app_source_version_id'',
      ''app_id'', ''app_url'']"
proof -
  from identifiers_exported [OF demo_run] obtain exe_env app_source app where
    "stack_outputs (final_state demo_host demo_state) = stack_outputs demo_state @
             [(''execution_environment_name'', Output (resource_name exe_env) ''name''),
              (''execution_environment_id'', Output (resource_name exe_env) ''id''),
              (''execution_environment_version_id'', Output (resource_name exe_env) ''version_id''),
              (''app_source_id'', Output (resource_name app_source) ''id''),
              (''app_source_version_id'', Output (resource_name app_source) ''version_id''),
              (''app_id'', Output (resource_name app) ''id''),
              (''app_url'', Output (resource_name app) ''application_url'')]"
    by blast
  then have "map fst (stack_outputs (final_state demo_host demo_state)) =
     [''execution_environment_name'', ''execution_environment_id'',
      ''execution_environment_version_id'', ''app_source_id'', ''app_source_version_id'',
      ''app_id'', ''app_url'']"
    by (simp add: demo_state_def)
  with demo_run show ?thesis by (rule conjI)
qed





end
